theory Spec2Isabelle
  imports Main "HOL-Library.AList"
begin

section \<open>Python values and builtins used by the two scripts\<close>

text \<open>
  Exceptions are values. Every \<^verbatim>\<open>raise\<close> of the scripts or of a library call they make
  is a left injection of the result type \<open>exn + 'a\<close>; a \<^verbatim>\<open>try/except Exception\<close> is a
  case distinction on that sum.
\<close>

datatype exn =
    ValueError
  | FileNotFoundError
  | IsADirectoryError
  | FileExistsError
  | OSError
  | PILError

text \<open>
  Characters are code points below 256. \<open>is_space\<close> is what \<^verbatim>\<open>str.isspace\<close>, \<^verbatim>\<open>str.strip\<close>
  and the pattern \<^verbatim>\<open>\s\<close> of \<^verbatim>\<open>re\<close> accept in that range: TAB, LF, VT, FF, CR, the four
  separators 28..31, the blank, NEL (133) and the no-break space (160).
\<close>

definition is_space :: "char \<Rightarrow> bool" where
  "is_space c =
     (let n = (of_char c :: nat)
      in (9 \<le> n \<and> n \<le> 13) \<or> (28 \<le> n \<and> n \<le> 32) \<or> n = 133 \<or> n = 160)"

definition hex_digit :: "char \<Rightarrow> int option" where
  "hex_digit c =
     (let n = (of_char c :: nat)
      in if 48 \<le> n \<and> n \<le> 57 then Some (int n - 48)
         else if 97 \<le> n \<and> n \<le> 102 then Some (int n - 87)
         else if 65 \<le> n \<and> n \<le> 70 then Some (int n - 55)
         else None)"

definition strip :: "string \<Rightarrow> string" where
  "strip s = rev (dropWhile is_space (rev (dropWhile is_space s)))"

text \<open>
  The digits of \<^verbatim>\<open>int(s, 16)\<close>: hexadecimal digits, single underscores allowed between
  two digits only. The flag says whether the previous character was a digit.
\<close>

fun parse_digits :: "int \<Rightarrow> bool \<Rightarrow> string \<Rightarrow> int option" where
  "parse_digits acc prev [] = (if prev then Some acc else None)"
| "parse_digits acc prev (c # cs) =
     (if c = CHR ''_'' then (if prev then parse_digits acc False cs else None)
      else (case hex_digit c of
              None \<Rightarrow> None
            | Some d \<Rightarrow> parse_digits (16 * acc + d) True cs))"

text \<open>
  \<^verbatim>\<open>int(s, 16)\<close>: surrounding whitespace is stripped, one sign is allowed, then an optional
  \<^verbatim>\<open>0x\<close>/\<^verbatim>\<open>0X\<close> prefix (which may be followed by one underscore), then the digits.
  Anything else raises \<^verbatim>\<open>ValueError\<close>.
\<close>

definition int16 :: "string \<Rightarrow> exn + int" where
  "int16 s =
     (let t = strip s;
          neg = (t \<noteq> [] \<and> hd t = CHR ''-'');
          u = (if t \<noteq> [] \<and> (hd t = CHR ''-'' \<or> hd t = CHR ''+'') then tl t else t);
          pre = (length u \<ge> 2 \<and> hd u = CHR ''0'' \<and> (u ! 1 = CHR ''x'' \<or> u ! 1 = CHR ''X''));
          v = (if pre then drop 2 u else u);
          w = (if pre \<and> v \<noteq> [] \<and> hd v = CHR ''_'' then tl v else v)
      in case parse_digits 0 False w of
           None \<Rightarrow> Inl ValueError
         | Some n \<Rightarrow> Inr (if neg then - n else n))"

text \<open>\<^verbatim>\<open>s.lstrip('#')\<close> removes every leading \<^verbatim>\<open>#\<close>.\<close>

definition lstrip :: "char \<Rightarrow> string \<Rightarrow> string" where
  "lstrip ch s = dropWhile (\<lambda>c. c = ch) s"

text \<open>The slice \<^verbatim>\<open>s[i:j]\<close> for \<open>0 \<le> i \<le> j\<close>; it never raises, and is short at the end.\<close>

definition slice :: "string \<Rightarrow> nat \<Rightarrow> nat \<Rightarrow> string" where
  "slice s i j = take (j - i) (drop i s)"

text \<open>\<^verbatim>\<open>str(n)\<close> of an integer, as an f-string formats it: decimal, a minus sign when negative.\<close>

fun str_nat :: "nat \<Rightarrow> string" where
  "str_nat n =
     (if n < 10 then [char_of (48 + n)]
      else str_nat (n div 10) @ [char_of (48 + n mod 10)])"

declare str_nat.simps [simp del]

definition str_int :: "int \<Rightarrow> string" where
  "str_int i = (if i < 0 then CHR ''-'' # str_nat (nat (- i)) else str_nat (nat i))"

text \<open>
  \<^verbatim>\<open>posixpath.join(a, b)\<close>: an absolute second component replaces the first; otherwise the
  two are joined with one separator unless the first is empty or already ends with one.
\<close>

definition os_path_join :: "string \<Rightarrow> string \<Rightarrow> string" where
  "os_path_join a b =
     (if b \<noteq> [] \<and> hd b = CHR ''/'' then b
      else if a = [] \<or> last a = CHR ''/'' then a @ b
      else a @ ''/'' @ b)"

text \<open>\<^verbatim>\<open>posixpath.basename(p)\<close>: everything after the last \<^verbatim>\<open>/\<close>.\<close>

definition os_path_basename :: "string \<Rightarrow> string" where
  "os_path_basename p = rev (takeWhile (\<lambda>c. c \<noteq> CHR ''/'') (rev p))"


section \<open>The image generator (generate-product-images script)\<close>

record config =
  product_id :: string
  variant :: string
  color :: string
  index :: int
  width :: int
  height :: int

definition mk :: "string \<Rightarrow> string \<Rightarrow> string \<Rightarrow> int \<Rightarrow> int \<Rightarrow> int \<Rightarrow> config" where
  "mk p v c i w h =
     \<lparr>product_id = p, variant = v, color = c, index = i, width = w, height = h\<rparr>"

definition IMAGE_CONFIGS :: "config list" where
  "IMAGE_CONFIGS =
    [mk ''nuzzle'' ''cloud-white'' ''#F5F5F0'' 1 800 800,
     mk ''nuzzle'' ''cloud-white'' ''#F5F5F0'' 2 800 800,
     mk ''nuzzle'' ''sage'' ''#9CAF88'' 1 800 800,
     mk ''nuzzle'' ''sage'' ''#9CAF88'' 2 800 800,
     mk ''nuzzle'' ''terra-cotta'' ''#C17A5F'' 1 800 800,
     mk ''nuzzle'' ''terra-cotta'' ''#C17A5F'' 2 800 800,
     mk ''cradle'' ''cloud-white'' ''#F5F5F0'' 1 800 1000,
     mk ''cradle'' ''cloud-white'' ''#F5F5F0'' 2 800 1000,
     mk ''cradle'' ''charcoal'' ''#36454F'' 1 800 1000,
     mk ''cradle'' ''charcoal'' ''#36454F'' 2 800 1000,
     mk ''cradle'' ''navy'' ''#001F3F'' 1 800 1000,
     mk ''cradle'' ''navy'' ''#001F3F'' 2 800 1000,
     mk ''bearhug'' ''cloud-white'' ''#F5F5F0'' 1 1000 1200,
     mk ''bearhug'' ''cloud-white'' ''#F5F5F0'' 2 1000 1200,
     mk ''bearhug'' ''sand'' ''#C2B280'' 1 1000 1200,
     mk ''bearhug'' ''sand'' ''#C2B280'' 2 1000 1200,
     mk ''bearhug'' ''stone'' ''#8B8680'' 1 1000 1200,
     mk ''bearhug'' ''stone'' ''#8B8680'' 2 1000 1200,
     mk ''sandbar'' ''sunset-orange'' ''#FF6B35'' 1 1200 1500,
     mk ''sandbar'' ''sunset-orange'' ''#FF6B35'' 2 1200 1500,
     mk ''sandbar'' ''ocean-blue'' ''#006994'' 1 1200 1500,
     mk ''sandbar'' ''ocean-blue'' ''#006994'' 2 1200 1500,
     mk ''chefs-mate'' ''checkered-red'' ''#B22222'' 1 800 1000,
     mk ''chefs-mate'' ''checkered-red'' ''#B22222'' 2 800 1000,
     mk ''chefs-mate'' ''classic-stripe'' ''#2F4F4F'' 1 800 1000,
     mk ''chefs-mate'' ''classic-stripe'' ''#2F4F4F'' 2 800 1000,
     mk ''hearth'' ''walnut'' ''#5C4033'' 1 1000 1200,
     mk ''hearth'' ''walnut'' ''#5C4033'' 2 1000 1200,
     mk ''hearth'' ''slate'' ''#708090'' 1 1000 1200,
     mk ''hearth'' ''slate'' ''#708090'' 2 1000 1200,
     mk ''wool-dryer-balls'' ''natural'' ''#D4A574'' 1 800 800]"

text \<open>
  \<^verbatim>\<open>hex_to_rgb\<close>: strip the leading \<^verbatim>\<open>#\<close>s, then convert the slices \<^verbatim>\<open>[0:2]\<close>, \<^verbatim>\<open>[2:4]\<close>,
  \<^verbatim>\<open>[4:6]\<close> in this order; the first conversion that raises ends the call.
\<close>

definition hex_to_rgb :: "string \<Rightarrow> exn + (int \<times> int \<times> int)" where
  "hex_to_rgb hex_color =
     (let h = lstrip CHR ''#'' hex_color
      in case int16 (slice h 0 2) of
           Inl e \<Rightarrow> Inl e
         | Inr r \<Rightarrow>
             (case int16 (slice h 2 4) of
                Inl e \<Rightarrow> Inl e
              | Inr g \<Rightarrow>
                  (case int16 (slice h 4 6) of
                     Inl e \<Rightarrow> Inl e
                   | Inr b \<Rightarrow> Inr (r, g, b))))"


text \<open>
  What the script does outside of its own arithmetic is the work of Pillow and of the
  operating system. Each such call either returns or raises; which of the two is the
  environment's choice, given here as a parameter:
  \<^item> \<open>uploads_dir\<close>: the value of \<^verbatim>\<open>UPLOADS_DIR\<close> (computed from \<^verbatim>\<open>__file__\<close>);
  \<^item> \<open>pil_fails\<close>: some drawing call of \<^verbatim>\<open>generate_image\<close> raises for this record;
  \<^item> \<open>save_fails\<close>: \<^verbatim>\<open>img.save\<close> raises for this path (and then leaves the files as they were);
  \<^item> \<open>getsize_fails\<close>: \<^verbatim>\<open>os.path.getsize\<close> raises for this path;
  \<^item> \<open>png_size\<close>: the length in bytes of the optimised PNG of an image.
  Writing to the console does not raise.
\<close>

record image =
  img_width :: int
  img_height :: int
  img_fill :: "int \<times> int \<times> int"

record gen_env =
  uploads_dir :: string
  pil_fails :: "config \<Rightarrow> bool"
  save_fails :: "string \<Rightarrow> bool"
  getsize_fails :: "string \<Rightarrow> bool"
  png_size :: "image \<Rightarrow> nat"

text \<open>
  \<^verbatim>\<open>generate_image\<close>: the background colour is converted first (and may raise
  \<^verbatim>\<open>ValueError\<close>); the canvas, the dot grid and the three labels are Pillow calls. The
  image value keeps the canvas size and the fill, which is all the caller depends on.
\<close>

definition generate_image :: "gen_env \<Rightarrow> config \<Rightarrow> exn + image" where
  "generate_image env cfg =
     (case hex_to_rgb (color cfg) of
        Inl e \<Rightarrow> Inl e
      | Inr rgb \<Rightarrow>
          if pil_fails env cfg then Inl PILError
          else Inr \<lparr>img_width = width cfg, img_height = height cfg, img_fill = rgb\<rparr>)"

text \<open>The lines the generator prints, one constructor per \<^verbatim>\<open>print\<close> statement.\<close>

datatype gen_line =
    Banner
  | OutputDirectory string
  | Generated string nat
  | Failed string exn
  | Completed int int

record gen_state =
  generated :: int
  errors :: int
  files :: "string \<rightharpoonup> image"
  console :: "gen_line list"

definition image_filename :: "config \<Rightarrow> string" where
  "image_filename cfg =
     product_id cfg @ ''-'' @ variant cfg @ ''-0'' @ str_int (index cfg) @ ''.png''"

definition image_label :: "config \<Rightarrow> string" where
  "image_label cfg = product_id cfg @ ''-'' @ variant cfg @ ''-0'' @ str_int (index cfg)"

definition img_save :: "gen_env \<Rightarrow> (string \<rightharpoonup> image) \<Rightarrow> string \<Rightarrow> image \<Rightarrow> exn + (string \<rightharpoonup> image)" where
  "img_save env fs filepath img =
     (if save_fails env filepath then Inl OSError else Inr (fs(filepath \<mapsto> img)))"

definition os_path_getsize :: "gen_env \<Rightarrow> (string \<rightharpoonup> image) \<Rightarrow> string \<Rightarrow> exn + nat" where
  "os_path_getsize env fs filepath =
     (case fs filepath of
        None \<Rightarrow> Inl FileNotFoundError
      | Some img \<Rightarrow> if getsize_fails env filepath then Inl OSError else Inr (png_size env img))"

text \<open>The \<^verbatim>\<open>except Exception as e\<close> branch of the loop body.\<close>

definition on_error :: "config \<Rightarrow> exn \<Rightarrow> gen_state \<Rightarrow> gen_state" where
  "on_error cfg e st =
     st\<lparr>console := console st @ [Failed (image_label cfg) e], errors := errors st + 1\<rparr>"

text \<open>
  One iteration of the loop of \<^verbatim>\<open>main\<close>: the \<^verbatim>\<open>try\<close> body statement by statement,
  every raise handed to the handler. A raise of \<^verbatim>\<open>getsize\<close> comes after the file was
  written.
\<close>

definition process_config :: "gen_env \<Rightarrow> config \<Rightarrow> gen_state \<Rightarrow> gen_state" where
  "process_config env cfg st =
     (let filename = image_filename cfg;
          filepath = os_path_join (uploads_dir env) filename
      in case generate_image env cfg of
           Inl e \<Rightarrow> on_error cfg e st
         | Inr img \<Rightarrow>
             (case img_save env (files st) filepath img of
                Inl e \<Rightarrow> on_error cfg e st
              | Inr fs' \<Rightarrow>
                  (case os_path_getsize env fs' filepath of
                     Inl e \<Rightarrow> on_error cfg e (st\<lparr>files := fs'\<rparr>)
                   | Inr size_bytes \<Rightarrow>
                       st\<lparr>files := fs',
                          console := console st @ [Generated filename size_bytes],
                          generated := generated st + 1\<rparr>)))"

text \<open>The \<^verbatim>\<open>for config in ...\<close> loop, over any list of records.\<close>

definition run_configs :: "gen_env \<Rightarrow> config list \<Rightarrow> gen_state \<Rightarrow> gen_state" where
  "run_configs env cfgs st = fold (process_config env) cfgs st"

definition gen_start :: "gen_env \<Rightarrow> (string \<rightharpoonup> image) \<Rightarrow> gen_state" where
  "gen_start env fs =
     \<lparr>generated = 0, errors = 0, files = fs,
      console = [Banner, OutputDirectory (uploads_dir env)]\<rparr>"


text \<open>
  \<^verbatim>\<open>main\<close>: the state after the summary line, and the value it returns, which the script
  hands to \<^verbatim>\<open>sys.exit\<close>. (Before \<^verbatim>\<open>main\<close> the module makes the uploads directory; the model
  starts at the first line of \<^verbatim>\<open>main\<close>.)
\<close>

definition main :: "gen_env \<Rightarrow> (string \<rightharpoonup> image) \<Rightarrow> int \<times> gen_state" where
  "main env fs =
     (let st = run_configs env IMAGE_CONFIGS (gen_start env fs);
          st' = st\<lparr>console := console st @ [Completed (generated st) (errors st)]\<rparr>
      in (if errors st' = 0 then 0 else 1, st'))"

text \<open>
  Whether the \<^verbatim>\<open>try\<close> body of a record raises. It does not depend on the files present.
\<close>

definition item_raises :: "gen_env \<Rightarrow> config \<Rightarrow> bool" where
  "item_raises env cfg =
     (let filepath = os_path_join (uploads_dir env) (image_filename cfg)
      in case generate_image env cfg of
           Inl e \<Rightarrow> True
         | Inr img \<Rightarrow> save_fails env filepath \<or> getsize_fails env filepath)"



section \<open>The story organizer (organize-stories script)\<close>

definition YAML_PATH :: string where
  "YAML_PATH =
     ''/Users/leonliang/Github Repo/gracestowel/docs/sprint/sprint-artifacts/sprint-status.yaml''"

definition BASE_DIR :: string where
  "BASE_DIR = ''/Users/leonliang/Github Repo/gracestowel/docs/sprint/sprint-artifacts''"

definition STATUS_FOLDERS :: "string list" where
  "STATUS_FOLDERS = [''done'', ''ready-for-dev'', ''in-progress'', ''backlog'', ''drafted'']"

subsection \<open>The regular expression\<close>

text \<open>
  The pattern of \<^verbatim>\<open>parse_stories_from_yaml\<close> is a sequence of literals and of greedy
  repetitions of a character class (\<^verbatim>\<open>\s*\<close>, \<^verbatim>\<open>\s+\<close>, \<^verbatim>\<open>\S+\<close>), three of them capturing.
  \<open>Rep cls mn cap\<close> is the class, the least number of characters, and whether the
  repetition is a group.
\<close>

datatype tok = Lit string | Rep "char \<Rightarrow> bool" nat bool

text \<open>
  Matching at the start of a string, as the backtracking engine of \<^verbatim>\<open>re\<close> does: a
  repetition first takes the longest run of its class and gives characters back one at a
  time while the rest of the pattern fails. The result is the groups of the first success,
  in order, and the text after the match.
\<close>

function rmatch :: "tok list \<Rightarrow> string \<Rightarrow> (string list \<times> string) option"
  and backoff :: "bool \<Rightarrow> tok list \<Rightarrow> string \<Rightarrow> nat \<Rightarrow> nat \<Rightarrow> (string list \<times> string) option"
where
  "rmatch [] s = Some ([], s)"
| "rmatch (Lit l # ts) s =
     (if take (length l) s = l then rmatch ts (drop (length l) s) else None)"
| "rmatch (Rep cls mn cap # ts) s = backoff cap ts s mn (length (takeWhile cls s))"
| "backoff cap ts s mn k =
     (if k < mn then None
      else (case rmatch ts (drop k s) of
              Some (caps, r) \<Rightarrow> Some (if cap then take k s # caps else caps, r)
            | None \<Rightarrow> if k = 0 then None else backoff cap ts s mn (k - 1)))"
  by pat_completeness auto
termination
  by (relation "inv_image (less_than <*lex*> less_than)
        (\<lambda>x. case x of Inl (ts, s) \<Rightarrow> (2 * length ts, 0)
                      | Inr (cap, ts, s, mn, k) \<Rightarrow> (2 * length ts + 1, k))")
     auto

declare backoff.simps [simp del]

text \<open>
  \<^verbatim>\<open>(\S+):\s*\n\s+path:\s*(\S+)\s*\n\s+status:\s*(\S+)\<close>
\<close>

definition non_space :: "char \<Rightarrow> bool" where
  "non_space c = (\<not> is_space c)"

definition pattern :: "tok list" where
  "pattern =
     [Rep non_space 1 True, Lit '':'', Rep is_space 0 False, Lit [CHR 0x0A],
      Rep is_space 1 False, Lit ''path:'', Rep is_space 0 False, Rep non_space 1 True,
      Rep is_space 0 False, Lit [CHR 0x0A],
      Rep is_space 1 False, Lit ''status:'', Rep is_space 0 False, Rep non_space 1 True]"

text \<open>The least number of characters a match of a token list consumes.\<close>

fun min_len :: "tok list \<Rightarrow> nat" where
  "min_len [] = 0"
| "min_len (Lit l # ts) = length l + min_len ts"
| "min_len (Rep cls mn cap # ts) = mn + min_len ts"

lemma rmatch_consumes:
  "rmatch ts s = Some (caps, r) \<Longrightarrow> length r + min_len ts \<le> length s"
  "backoff cap ts s mn k = Some (caps, r) \<Longrightarrow> k \<le> length s
     \<Longrightarrow> length r + mn + min_len ts \<le> length s"
proof (induction ts s and cap ts s mn k arbitrary: caps r and caps r rule: rmatch_backoff.induct)
  case (1 s)
  then show ?case by simp
next
  case (2 l ts s)
  then have t: "take (length l) s = l" and m: "rmatch ts (drop (length l) s) = Some (caps, r)"
    by (auto split: if_splits)
  have "length (take (length l) s) = length l"
    using t by simp
  then have "length l \<le> length s"
    by simp
  then show ?case
    using "2.IH"[OF t m] by simp
next
  case (3 cls mn cap ts s)
  have "length (takeWhile cls s) \<le> length s"
    by (rule length_takeWhile_le)
  then show ?case
    using "3.IH"[of caps r] "3.prems" by simp
next
  case (4 cap ts s mn k)
  from "4.prems"(1) have ge: "\<not> k < mn"
    by (simp add: backoff.simps split: if_splits)
  show ?case
  proof (cases "rmatch ts (drop k s)")
    case None
    with "4.prems" ge have k: "k \<noteq> 0" and b: "backoff cap ts s mn (k - 1) = Some (caps, r)"
      by (auto simp: backoff.simps split: if_splits)
    show ?thesis
      using "4.IH"(2)[OF ge None k b] "4.prems"(2) by simp
  next
    case (Some a)
    obtain caps' r' where a: "a = (caps', r')"
      by (cases a)
    with Some "4.prems" ge have "r' = r"
      by (simp add: backoff.simps)
    then show ?thesis
      using "4.IH"(1)[OF ge, of caps' r] Some a "4.prems"(2) ge by simp
  qed
qed

lemma pattern_consumes:
  assumes "rmatch pattern s = Some (caps, r)"
  shows "length r < length s"
  using rmatch_consumes(1)[OF assms] by (simp add: pattern_def)

text \<open>
  \<^verbatim>\<open>re.finditer(pattern, content)\<close>: the matches from left to right, each search starting
  where the previous match ended; a position where the pattern fails is skipped. Each
  match is given by its three groups.
\<close>

function finditer :: "string \<Rightarrow> string list list" where
  "finditer s =
     (if s = [] then []
      else (case rmatch pattern s of
              Some (caps, r) \<Rightarrow> caps # finditer r
            | None \<Rightarrow> finditer (tl s)))"
  by pat_completeness auto
termination
proof (relation "measure length")
  show "wf (measure length)"
    by simp
next
  fix s :: string and x2 :: "string list \<times> string" and x y
  assume "s \<noteq> []" "rmatch pattern s = Some x2" "(x, y) = x2"
  then show "(y, s) \<in> measure length"
    using pattern_consumes[of s x y] by simp
next
  fix s :: string
  assume "s \<noteq> []"
  then show "(tl s, s) \<in> measure length"
    by (cases s) simp_all
qed

declare finditer.simps [simp del]

text \<open>\<^verbatim>\<open>match.group(n)\<close> for \<open>n\<close> from 1 to the number of groups.\<close>

definition group :: "string list \<Rightarrow> nat \<Rightarrow> string" where
  "group m n = m ! (n - 1)"

subsection \<open>Parsing the status file\<close>

text \<open>
  The dictionary \<^verbatim>\<open>stories\<close> is an association list in insertion order:
  \<^verbatim>\<open>stories[filename] = status\<close> replaces the value of a key that is present, in place,
  and appends a new key at the end, which is what \<open>AList.update\<close> does.
\<close>

definition add_story :: "string list \<Rightarrow> (string \<times> string) list \<Rightarrow> (string \<times> string) list" where
  "add_story m stories =
     (let story_key = group m 1;
          path = group m 2;
          status = group m 3;
          filename = os_path_basename path
      in AList.update filename status stories)"

definition stories_of :: "string \<Rightarrow> (string \<times> string) list" where
  "stories_of content = fold add_story (finditer content) []"

text \<open>
  The directory tree, as far as the script looks at it: a path is absent, a regular file
  with its text, or a directory.
\<close>

datatype node = File string | Dir

text \<open>
  What the operating system may refuse on top of what the tree itself decides:
  reading the status file, creating a directory, moving an entry.
\<close>

record org_env =
  read_fails :: "string \<Rightarrow> bool"
  mkdir_fails :: "string \<Rightarrow> bool"
  move_fails :: "string \<Rightarrow> string \<Rightarrow> bool"

text \<open>\<^verbatim>\<open>parse_stories_from_yaml\<close>: \<^verbatim>\<open>open\<close> and \<^verbatim>\<open>read\<close> are not guarded by a \<^verbatim>\<open>try\<close>.\<close>

definition parse_stories_from_yaml ::
  "org_env \<Rightarrow> (string \<rightharpoonup> node) \<Rightarrow> exn + (string \<times> string) list" where
  "parse_stories_from_yaml env d =
     (case d YAML_PATH of
        None \<Rightarrow> Inl FileNotFoundError
      | Some Dir \<Rightarrow> Inl IsADirectoryError
      | Some (File content) \<Rightarrow>
          if read_fails env YAML_PATH then Inl OSError else Inr (stories_of content))"

text \<open>The lines the organizer prints, one constructor per \<^verbatim>\<open>print\<close> statement.\<close>

datatype org_line =
    Parsing
  | Found nat
  | CreatedVerified string
  | MovedTo string string
  | ErrorMoving string exn
  | SummaryHeader
  | SummaryMoved int
  | SummarySkipped int
  | Done

record org_state =
  disk :: "string \<rightharpoonup> node"
  moved_count :: int
  skipped_count :: int
  out :: "org_line list"

text \<open>
  \<^verbatim>\<open>os.makedirs(p, exist_ok=True)\<close>: nothing to do for a directory, \<^verbatim>\<open>FileExistsError\<close>
  for a regular file, and otherwise the directory is created unless the system refuses.
\<close>

definition os_makedirs :: "org_env \<Rightarrow> (string \<rightharpoonup> node) \<Rightarrow> string \<Rightarrow> exn + (string \<rightharpoonup> node)" where
  "os_makedirs env d p =
     (case d p of
        Some Dir \<Rightarrow> Inr d
      | Some (File c) \<Rightarrow> Inl FileExistsError
      | None \<Rightarrow> if mkdir_fails env p then Inl OSError else Inr (d(p \<mapsto> Dir)))"

text \<open>The loop over \<^verbatim>\<open>STATUS_FOLDERS\<close>; a raise of \<^verbatim>\<open>makedirs\<close> is not caught.\<close>

fun make_folders :: "org_env \<Rightarrow> string list \<Rightarrow> org_state \<Rightarrow> exn + org_state" where
  "make_folders env [] st = Inr st"
| "make_folders env (folder # folders) st =
     (let folder_path = os_path_join BASE_DIR folder
      in case os_makedirs env (disk st) folder_path of
           Inl e \<Rightarrow> Inl e
         | Inr d' \<Rightarrow>
             make_folders env folders (st\<lparr>disk := d', out := out st @ [CreatedVerified folder]\<rparr>))"

text \<open>
  \<^verbatim>\<open>shutil.move(src, dst)\<close>: either it raises and the tree is as before, or the entry is
  at the destination and no longer at the source.
\<close>

definition shutil_move ::
  "org_env \<Rightarrow> (string \<rightharpoonup> node) \<Rightarrow> string \<Rightarrow> string \<Rightarrow> exn + (string \<rightharpoonup> node)" where
  "shutil_move env d src dst =
     (if move_fails env src dst then Inl OSError else Inr ((d(dst := d src))(src := None)))"

text \<open>\<^verbatim>\<open>target_folder = status if status in STATUS_FOLDERS else 'backlog'\<close>\<close>

definition target_folder :: "string \<Rightarrow> string" where
  "target_folder status = (if status \<in> set STATUS_FOLDERS then status else ''backlog'')"

definition src_path :: "string \<Rightarrow> string" where
  "src_path filename = os_path_join BASE_DIR filename"

definition target_path :: "string \<Rightarrow> string \<Rightarrow> string" where
  "target_path status filename =
     os_path_join (os_path_join BASE_DIR (target_folder status)) filename"

text \<open>One iteration of \<^verbatim>\<open>for filename, status in stories.items()\<close>.\<close>

definition process_story :: "org_env \<Rightarrow> string \<times> string \<Rightarrow> org_state \<Rightarrow> org_state" where
  "process_story env item st =
     (let filename = fst item; status = snd item
      in if disk st (src_path filename) = None then st
         else (case shutil_move env (disk st) (src_path filename) (target_path status filename) of
                 Inr d' \<Rightarrow>
                   st\<lparr>disk := d',
                      out := out st @ [MovedTo (target_folder status) filename],
                      moved_count := moved_count st + 1\<rparr>
               | Inl e \<Rightarrow>
                   st\<lparr>out := out st @ [ErrorMoving filename e],
                      skipped_count := skipped_count st + 1\<rparr>))"

definition move_stories :: "org_env \<Rightarrow> (string \<times> string) list \<Rightarrow> org_state \<Rightarrow> org_state" where
  "move_stories env stories st = fold (process_story env) stories st"

definition org_start :: "(string \<rightharpoonup> node) \<Rightarrow> (string \<times> string) list \<Rightarrow> org_state" where
  "org_start d stories =
     \<lparr>disk = d, moved_count = 0, skipped_count = 0, out = [Parsing, Found (length stories)]\<rparr>"

definition summary :: "org_state \<Rightarrow> org_state" where
  "summary st =
     st\<lparr>out := out st @ [SummaryHeader, SummaryMoved (moved_count st),
                           SummarySkipped (skipped_count st)]\<rparr>"

text \<open>\<^verbatim>\<open>organize_stories\<close>: parse, make the folders, move, print the summary.\<close>

definition organize_stories :: "org_env \<Rightarrow> (string \<rightharpoonup> node) \<Rightarrow> exn + org_state" where
  "organize_stories env d =
     (case parse_stories_from_yaml env d of
        Inl e \<Rightarrow> Inl e
      | Inr stories \<Rightarrow>
          (case make_folders env STATUS_FOLDERS (org_start d stories) of
             Inl e \<Rightarrow> Inl e
           | Inr st \<Rightarrow> Inr (summary (move_stories env stories st))))"

text \<open>
  The script run as a program: an exception that reaches the top level ends the process
  with status 1; otherwise \<^verbatim>\<open>Done!\<close> is printed and the status is 0.
\<close>

definition organizer_exit_code :: "org_env \<Rightarrow> (string \<rightharpoonup> node) \<Rightarrow> int" where
  "organizer_exit_code env d =
     (case organize_stories env d of Inl e \<Rightarrow> 1 | Inr st \<Rightarrow> 0)"

definition organizer_output :: "org_env \<Rightarrow> (string \<rightharpoonup> node) \<Rightarrow> org_line list" where
  "organizer_output env d =
     (case organize_stories env d of Inl e \<Rightarrow> [Parsing] | Inr st \<Rightarrow> out st @ [Done])"

text \<open>
  A status file with two entries whose paths end in the same file name, and an operating
  system that refuses nothing.
\<close>

definition sample :: string where
  "sample = ''development_status:'' @ [CHR 0x0A] @
            ''  story-1:'' @ [CHR 0x0A] @
            ''    path: docs/a/story.md'' @ [CHR 0x0A] @
            ''    status: done'' @ [CHR 0x0A] @
            ''  story-2:'' @ [CHR 0x0A] @
            ''    path: docs/b/story.md'' @ [CHR 0x0A] @
            ''    status: review'' @ [CHR 0x0A]"

definition os_quiet :: org_env where
  "os_quiet = \<lparr>read_fails = (\<lambda>p. False), mkdir_fails = (\<lambda>p. False), move_fails = (\<lambda>p q. False)\<rparr>"

text \<open>A base directory holding that status file and one story file at its root.\<close>

definition sample_disk :: "string \<rightharpoonup> node" where
  "sample_disk = [YAML_PATH \<mapsto> File sample, src_path ''story.md'' \<mapsto> File ''# Story'']"












text \<open>
  Two environments to run the generator in: one where nothing raises, and one where the
  disk refuses a single file.
\<close>

definition env_ok :: gen_env where
  "env_ok = \<lparr>uploads_dir = ''/app/uploads'', pil_fails = (\<lambda>c. False),
     save_fails = (\<lambda>p. False), getsize_fails = (\<lambda>p. False), png_size = (\<lambda>i. 2048)\<rparr>"

definition env_disk_full :: gen_env where
  "env_disk_full = env_ok\<lparr>save_fails := (\<lambda>p. p = ''/app/uploads/nuzzle-sage-01.png'')\<rparr>"


section \<open>Properties of the image generator\<close>

subsection \<open>Colour conversion\<close>

lemma hex_digit_range: "hex_digit c = Some v \<Longrightarrow> 0 \<le> v \<and> v \<le> 15"
  by (auto simp: hex_digit_def Let_def split: if_splits)

lemma hex_digit_plain:
  assumes "hex_digit c = Some v"
  shows "\<not> is_space c" "c \<noteq> CHR ''#''" "c \<noteq> CHR ''-''" "c \<noteq> CHR ''+''"
    "c \<noteq> CHR ''_''" "c \<noteq> CHR ''x''" "c \<noteq> CHR ''X''"
  using assms by (auto simp: hex_digit_def is_space_def Let_def split: if_splits)

lemma int16_pair:
  assumes a: "hex_digit a = Some va" and b: "hex_digit b = Some vb"
  shows "int16 [a, b] = Inr (16 * va + vb)"
proof -
  have "strip [a, b] = [a, b]"
    using hex_digit_plain(1)[OF a] hex_digit_plain(1)[OF b] by (simp add: strip_def)
  then show ?thesis
    using hex_digit_plain[OF a] hex_digit_plain[OF b] a b
    by (simp add: int16_def Let_def)
qed

text \<open>
  C10. A string made of an optional leading \<^verbatim>\<open>#\<close> and exactly six hexadecimal digits is
  converted by \<^verbatim>\<open>hex_to_rgb\<close> without a raise, to the triple of the values of its three
  two-digit pairs (sixteen times the first digit plus the second), each between 0 and 255.
\<close>

theorem hex_to_rgb_six_digits:
  assumes "pre = [] \<or> pre = ''#''"
    and "hex_digit a = Some va" and "hex_digit b = Some vb"
    and "hex_digit c = Some vc" and "hex_digit d = Some vd"
    and "hex_digit e = Some ve" and "hex_digit f = Some vf"
  shows "hex_to_rgb (pre @ [a, b, c, d, e, f]) = Inr (16 * va + vb, 16 * vc + vd, 16 * ve + vf)
       \<and> 0 \<le> 16 * va + vb \<and> 16 * va + vb \<le> 255
       \<and> 0 \<le> 16 * vc + vd \<and> 16 * vc + vd \<le> 255
       \<and> 0 \<le> 16 * ve + vf \<and> 16 * ve + vf \<le> 255"
proof -
  have h: "lstrip CHR ''#'' (pre @ [a, b, c, d, e, f]) = [a, b, c, d, e, f]"
    using assms(1) hex_digit_plain(2)[OF assms(2)] by (auto simp: lstrip_def)
  have "hex_to_rgb (pre @ [a, b, c, d, e, f]) = Inr (16 * va + vb, 16 * vc + vd, 16 * ve + vf)"
    unfolding hex_to_rgb_def h
    by (simp add: slice_def int16_pair[OF assms(2,3)] int16_pair[OF assms(4,5)]
        int16_pair[OF assms(6,7)])
  then show ?thesis
    using hex_digit_range[OF assms(2)] hex_digit_range[OF assms(3)]
      hex_digit_range[OF assms(4)] hex_digit_range[OF assms(5)]
      hex_digit_range[OF assms(6)] hex_digit_range[OF assms(7)]
    by simp
qed

theorem hex_to_rgb_six_digits_witness:
  "hex_to_rgb ''#F5F5F0'' = Inr (245, 245, 240) \<and> hex_to_rgb ''9caf88'' = Inr (156, 175, 136)"
proof -
  have F: "hex_digit CHR ''F'' = Some 15" and n5: "hex_digit CHR ''5'' = Some 5"
    and n0: "hex_digit CHR ''0'' = Some 0" and n9: "hex_digit CHR ''9'' = Some 9"
    and c: "hex_digit CHR ''c'' = Some 12" and a: "hex_digit CHR ''a'' = Some 10"
    and f: "hex_digit CHR ''f'' = Some 15" and n8: "hex_digit CHR ''8'' = Some 8"
    by (simp_all add: hex_digit_def)
  show ?thesis
    using hex_to_rgb_six_digits[of "''#''", OF _ F n5 F n5 F n0]
      hex_to_rgb_six_digits[of "[]", OF _ n9 c a f n8 n8]
    by simp
qed


subsection \<open>The loop of main\<close>

lemma process_config_raises:
  assumes "item_raises env cfg"
  shows "generated (process_config env cfg st) = generated st"
    and "errors (process_config env cfg st) = errors st + 1"
    and "\<exists>e. console (process_config env cfg st) = console st @ [Failed (image_label cfg) e]"
    and "files (process_config env cfg st) = files st \<or>
         (\<exists>img. files (process_config env cfg st) =
            (files st)(os_path_join (uploads_dir env) (image_filename cfg) \<mapsto> img))"
  using assms
  by (auto simp: item_raises_def process_config_def img_save_def os_path_getsize_def Let_def
      on_error_def split: sum.splits)

lemma process_config_succeeds:
  assumes "\<not> item_raises env cfg"
  shows "\<exists>img. generate_image env cfg = Inr img \<and>
           process_config env cfg st =
             st\<lparr>files := (files st)(os_path_join (uploads_dir env) (image_filename cfg) \<mapsto> img),
                console := console st @ [Generated (image_filename cfg) (png_size env img)],
                generated := generated st + 1\<rparr>"
  using assms
  by (auto simp: item_raises_def process_config_def img_save_def os_path_getsize_def Let_def
      split: sum.splits)

lemma process_config_counters:
  "generated (process_config env cfg st) = generated st + (if item_raises env cfg then 0 else 1)"
  "errors (process_config env cfg st) = errors st + (if item_raises env cfg then 1 else 0)"
  using process_config_raises(1,2)[of env cfg st] process_config_succeeds[of env cfg st]
  by auto

lemma run_configs_Nil: "run_configs env [] st = st"
  by (simp add: run_configs_def)

lemma run_configs_Cons: "run_configs env (c # cs) st = run_configs env cs (process_config env c st)"
  by (simp add: run_configs_def)

lemma run_configs_append:
  "run_configs env (xs @ ys) st = run_configs env ys (run_configs env xs st)"
  by (simp add: run_configs_def)

lemma run_configs_counters:
  "generated (run_configs env cs st) = generated st + int (length (filter (\<lambda>c. \<not> item_raises env c) cs))"
  "errors (run_configs env cs st) = errors st + int (length (filter (item_raises env) cs))"
  by (induction cs arbitrary: st) (simp_all add: run_configs_Nil run_configs_Cons process_config_counters)


lemma length_IMAGE_CONFIGS: "length IMAGE_CONFIGS = 31"
  by (simp add: IMAGE_CONFIGS_def)

lemma sum_filter_length: "length (filter P xs) + length (filter (\<lambda>x. \<not> P x) xs) = length xs"
  by (induction xs) auto

lemma str_int_small: "str_int 1 = ''1''" "str_int 2 = ''2''"
  by code_simp+

lemma image_filename_configured:
  "map image_filename IMAGE_CONFIGS =
    [''nuzzle-cloud-white-01.png'', ''nuzzle-cloud-white-02.png'',
     ''nuzzle-sage-01.png'', ''nuzzle-sage-02.png'',
     ''nuzzle-terra-cotta-01.png'', ''nuzzle-terra-cotta-02.png'',
     ''cradle-cloud-white-01.png'', ''cradle-cloud-white-02.png'',
     ''cradle-charcoal-01.png'', ''cradle-charcoal-02.png'',
     ''cradle-navy-01.png'', ''cradle-navy-02.png'',
     ''bearhug-cloud-white-01.png'', ''bearhug-cloud-white-02.png'',
     ''bearhug-sand-01.png'', ''bearhug-sand-02.png'',
     ''bearhug-stone-01.png'', ''bearhug-stone-02.png'',
     ''sandbar-sunset-orange-01.png'', ''sandbar-sunset-orange-02.png'',
     ''sandbar-ocean-blue-01.png'', ''sandbar-ocean-blue-02.png'',
     ''chefs-mate-checkered-red-01.png'', ''chefs-mate-checkered-red-02.png'',
     ''chefs-mate-classic-stripe-01.png'', ''chefs-mate-classic-stripe-02.png'',
     ''hearth-walnut-01.png'', ''hearth-walnut-02.png'',
     ''hearth-slate-01.png'', ''hearth-slate-02.png'',
     ''wool-dryer-balls-natural-01.png'']"
  by (simp add: IMAGE_CONFIGS_def mk_def image_filename_def str_int_small)

lemma image_filename_distinct: "distinct (map image_filename IMAGE_CONFIGS)"
  unfolding image_filename_configured by simp

lemma image_filename_relative:
  "cfg \<in> set IMAGE_CONFIGS \<Longrightarrow> image_filename cfg \<noteq> [] \<and> hd (image_filename cfg) \<noteq> CHR ''/''"
proof -
  have "list_all (\<lambda>n. n \<noteq> [] \<and> hd n \<noteq> CHR ''/'') (map image_filename IMAGE_CONFIGS)"
    unfolding image_filename_configured by simp
  then show "cfg \<in> set IMAGE_CONFIGS \<Longrightarrow> image_filename cfg \<noteq> [] \<and> hd (image_filename cfg) \<noteq> CHR ''/''"
    by (simp add: list_all_iff)
qed

lemma os_path_join_relative:
  assumes "b \<noteq> []" "hd b \<noteq> CHR ''/''"
  shows "os_path_join a b = (if a = [] \<or> last a = CHR ''/'' then a @ b else a @ ''/'' @ b)"
  using assms by (simp add: os_path_join_def)

lemma os_path_join_inject:
  assumes "b \<noteq> []" "hd b \<noteq> CHR ''/''" "b' \<noteq> []" "hd b' \<noteq> CHR ''/''"
  shows "os_path_join a b = os_path_join a b' \<longleftrightarrow> b = b'"
  using assms by (simp add: os_path_join_def)

lemma process_config_files_other:
  assumes "os_path_join (uploads_dir env) (image_filename cfg) \<noteq> p"
  shows "files (process_config env cfg st) p = files st p"
  using assms
  by (auto simp: process_config_def img_save_def os_path_getsize_def Let_def on_error_def
      split: sum.splits if_splits)

lemma run_configs_files_other:
  assumes "\<forall>cfg \<in> set cfgs. os_path_join (uploads_dir env) (image_filename cfg) \<noteq> p"
  shows "files (run_configs env cfgs st) p = files st p"
  using assms
  by (induction cfgs arbitrary: st)
     (simp_all add: run_configs_Nil run_configs_Cons process_config_files_other)



subsection \<open>The exit code\<close>

lemma int16_pair_the:
  assumes "hex_digit a \<noteq> None" "hex_digit b \<noteq> None"
  shows "int16 [a, b] = Inr (16 * the (hex_digit a) + the (hex_digit b))"
  using assms int16_pair[of a _ b] by auto

lemma hex_to_rgb_configured:
  "list_all (\<lambda>cfg. \<exists>rgb. hex_to_rgb (color cfg) = Inr rgb) IMAGE_CONFIGS"
  by (simp add: IMAGE_CONFIGS_def mk_def hex_to_rgb_def lstrip_def slice_def int16_pair_the
      hex_digit_def)

lemma env_ok_never_raises: "cfg \<in> set IMAGE_CONFIGS \<Longrightarrow> \<not> item_raises env_ok cfg"
  using hex_to_rgb_configured
  by (auto simp: list_all_iff item_raises_def generate_image_def env_ok_def Let_def split: sum.splits)

text \<open>
  C4. \<^verbatim>\<open>main\<close> returns 0 exactly when no configured record raised in its \<^verbatim>\<open>try\<close> body
  (its image was generated and saved and its size read), which is exactly when all
  records were counted as generated; it returns 1 exactly when some record raised.
\<close>

theorem main_exit_code:
  "(fst (main env fs) = 0 \<longleftrightarrow> (\<forall>cfg \<in> set IMAGE_CONFIGS. \<not> item_raises env cfg))
   \<and> (fst (main env fs) = 1 \<longleftrightarrow> (\<exists>cfg \<in> set IMAGE_CONFIGS. item_raises env cfg))
   \<and> (fst (main env fs) = 0 \<longleftrightarrow> generated (snd (main env fs)) = int (length IMAGE_CONFIGS))"
proof -
  let ?bad = "filter (item_raises env) IMAGE_CONFIGS"
  let ?good = "filter (\<lambda>c. \<not> item_raises env c) IMAGE_CONFIGS"
  have e: "errors (snd (main env fs)) = int (length ?bad)"
    and g: "generated (snd (main env fs)) = int (length ?good)"
    by (simp_all add: main_def Let_def run_configs_counters gen_start_def)
  have x: "fst (main env fs) = (if errors (snd (main env fs)) = 0 then 0 else 1)"
    by (simp add: main_def Let_def)
  have b: "?bad = [] \<longleftrightarrow> (\<forall>cfg \<in> set IMAGE_CONFIGS. \<not> item_raises env cfg)"
    by (simp add: filter_empty_conv)
  have s: "length ?bad + length ?good = length IMAGE_CONFIGS"
    by (rule sum_filter_length)
  show ?thesis
    using e g x b s by auto
qed

theorem main_exit_code_witness:
  "fst (main env_ok Map.empty) = 0 \<and> fst (main env_disk_full Map.empty) = 1"
proof -
  have "item_raises env_disk_full (IMAGE_CONFIGS ! 2)"
    by (simp add: item_raises_def IMAGE_CONFIGS_def mk_def image_filename_def str_int_small
        os_path_join_def env_disk_full_def env_ok_def Let_def split: sum.splits)
  moreover have "IMAGE_CONFIGS ! 2 \<in> set IMAGE_CONFIGS"
    by (simp add: length_IMAGE_CONFIGS)
  ultimately have "\<exists>cfg \<in> set IMAGE_CONFIGS. item_raises env_disk_full cfg"
    by blast
  then show ?thesis
    using main_exit_code[of env_ok Map.empty] main_exit_code[of env_disk_full Map.empty]
      env_ok_never_raises
    by blast
qed

subsection \<open>Where the files go\<close>

lemma run_configs_writes:
  assumes d: "distinct (map image_filename (xs @ cfg # ys))"
    and r: "\<forall>c \<in> set (xs @ cfg # ys). image_filename c \<noteq> [] \<and> hd (image_filename c) \<noteq> CHR ''/''"
    and ok: "generate_image env cfg = Inr img" "\<not> item_raises env cfg"
  shows "files (run_configs env (xs @ cfg # ys) st) (os_path_join (uploads_dir env) (image_filename cfg))
         = Some img"
proof -
  let ?p = "os_path_join (uploads_dir env) (image_filename cfg)"
  let ?mid = "process_config env cfg (run_configs env xs st)"
  have "\<forall>c \<in> set ys. image_filename c \<noteq> image_filename cfg"
    using d by (auto simp: image_iff)
  then have "\<forall>c \<in> set ys. os_path_join (uploads_dir env) (image_filename c) \<noteq> ?p"
    using r by (simp add: os_path_join_inject)
  then have "files (run_configs env ys ?mid) ?p = files ?mid ?p"
    by (rule run_configs_files_other)
  moreover have "files ?mid ?p = Some img"
    using process_config_succeeds[OF ok(2), of "run_configs env xs st"] ok(1) by auto
  ultimately show ?thesis
    by (simp add: run_configs_append run_configs_Cons)
qed

text \<open>
  C7. For a configured record whose \<^verbatim>\<open>try\<close> body does not raise, the file system after
  \<^verbatim>\<open>main\<close> holds the record's image in the uploads directory, under the name
  \<^verbatim>\<open>{product}-{variant}-0{index}.png\<close>: the product, a dash, the variant, a dash, a literal
  0, the index in decimal, and the extension.
\<close>

theorem main_writes_named_file:
  assumes "cfg \<in> set IMAGE_CONFIGS" and "\<not> item_raises env cfg"
  shows "(let filename = product_id cfg @ ''-'' @ variant cfg @ ''-0'' @ str_int (index cfg) @ ''.png'';
              d = uploads_dir env;
              filepath = (if d = [] \<or> last d = CHR ''/'' then d @ filename else d @ ''/'' @ filename)
          in \<exists>img. generate_image env cfg = Inr img
                 \<and> files (snd (main env fs)) filepath = Some img)"
proof -
  obtain xs ys where split: "IMAGE_CONFIGS = xs @ cfg # ys"
    using assms(1) by (auto simp: in_set_conv_decomp)
  obtain img where img: "generate_image env cfg = Inr img"
    using process_config_succeeds[OF assms(2)] by blast
  have rel: "\<forall>c \<in> set (xs @ cfg # ys). image_filename c \<noteq> [] \<and> hd (image_filename c) \<noteq> CHR ''/''"
    using image_filename_relative unfolding split[symmetric] by blast
  have "files (run_configs env (xs @ cfg # ys) (gen_start env fs))
          (os_path_join (uploads_dir env) (image_filename cfg)) = Some img"
    using image_filename_distinct rel img assms(2)
    unfolding split by (rule run_configs_writes)
  then have f: "files (snd (main env fs)) (os_path_join (uploads_dir env) (image_filename cfg)) = Some img"
    unfolding main_def Let_def split by simp
  show ?thesis
    using f img image_filename_relative[OF assms(1)]
    by (simp add: Let_def os_path_join_relative image_filename_def)
qed


theorem main_writes_named_file_witness:
  "IMAGE_CONFIGS ! 4 \<in> set IMAGE_CONFIGS \<and> \<not> item_raises env_disk_full (IMAGE_CONFIGS ! 4)
   \<and> files (snd (main env_disk_full Map.empty)) ''/app/uploads/nuzzle-terra-cotta-01.png''
       = Some \<lparr>img_width = 800, img_height = 800, img_fill = (193, 122, 95)\<rparr>"
proof -
  have m: "IMAGE_CONFIGS ! 4 \<in> set IMAGE_CONFIGS"
    by (simp add: length_IMAGE_CONFIGS)
  have c: "IMAGE_CONFIGS ! 4 = mk ''nuzzle'' ''terra-cotta'' ''#C17A5F'' 1 800 800"
    by (simp add: IMAGE_CONFIGS_def)
  have g: "generate_image env_disk_full (IMAGE_CONFIGS ! 4)
             = Inr \<lparr>img_width = 800, img_height = 800, img_fill = (193, 122, 95)\<rparr>"
    unfolding c
    by (simp add: mk_def generate_image_def hex_to_rgb_def lstrip_def slice_def int16_pair_the
        hex_digit_def env_disk_full_def env_ok_def)
  have r: "\<not> item_raises env_disk_full (IMAGE_CONFIGS ! 4)"
    using g unfolding c
    by (simp add: item_raises_def mk_def image_filename_def str_int_small
        os_path_join_def env_disk_full_def env_ok_def Let_def)
  have d: "uploads_dir env_disk_full = ''/app/uploads''"
    by (simp add: env_disk_full_def env_ok_def)
  have f: "product_id (IMAGE_CONFIGS ! 4) = ''nuzzle''" "variant (IMAGE_CONFIGS ! 4) = ''terra-cotta''"
    "str_int (index (IMAGE_CONFIGS ! 4)) = ''1''"
    unfolding c by (simp_all add: mk_def str_int_small)
  have "files (snd (main env_disk_full Map.empty)) ''/app/uploads/nuzzle-terra-cotta-01.png''
       = Some \<lparr>img_width = 800, img_height = 800, img_fill = (193, 122, 95)\<rparr>"
    using main_writes_named_file[OF m r, of Map.empty]
    unfolding Let_def d f g by simp
  then show ?thesis
    using m r by blast
qed


section \<open>Properties of the story organizer\<close>

subsection \<open>The parsed stories\<close>

lemma finditer_sample:
  "finditer sample = [[''story-1'', ''docs/a/story.md'', ''done''],
                      [''story-2'', ''docs/b/story.md'', ''review'']]"
  by code_simp

lemma stories_of_fold_map:
  "map_of (fold add_story ms acc) =
     fold (\<lambda>m f. f(os_path_basename (group m 2) \<mapsto> group m 3)) ms (map_of acc)"
  by (induction ms arbitrary: acc) (simp_all add: add_story_def Let_def update_conv')

lemma fold_upd_last:
  "fold (\<lambda>m f. f(key m \<mapsto> val m)) ms f0 b =
     (if \<exists>m \<in> set ms. key m = b then Some (val (last (filter (\<lambda>m. key m = b) ms))) else f0 b)"
proof (induction ms rule: rev_induct)
  case Nil
  then show ?case by simp
next
  case (snoc m ms)
  then show ?case by auto
qed

lemma stories_of_distinct_fold:
  "distinct (map fst acc) \<Longrightarrow> distinct (map fst (fold add_story ms acc))"
  by (induction ms arbitrary: acc) (simp_all add: add_story_def Let_def distinct_update)

lemma stories_of_distinct: "distinct (map fst (stories_of content))"
  by (simp add: stories_of_def stories_of_distinct_fold)

lemma single_entry:
  assumes "distinct (map fst xs)" "map_of xs b = Some v"
  shows "filter (\<lambda>e. fst e = b) xs = [(b, v)]"
  using assms
proof (induction xs)
  case Nil
  then show ?case by simp
next
  case (Cons x xs)
  show ?case
  proof (cases "fst x = b")
    case True
    with Cons.prems have "filter (\<lambda>e. fst e = b) xs = []"
      by (auto simp: filter_empty_conv image_iff)
    with True Cons.prems show ?thesis
      by (cases x) auto
  next
    case False
    with Cons show ?thesis by auto
  qed
qed

text \<open>
  C9. The result of \<^verbatim>\<open>parse_stories_from_yaml\<close> is keyed by the base name of each matched
  path. For every match of the status file, the result has exactly one entry under the base
  name of the match's path, and its status is the one of the last match, in file order,
  whose path has that base name; so several matches with one base name leave a single
  entry, with the status of the last of them.
\<close>

theorem stories_keyed_by_basename:
  assumes "m \<in> set (finditer content)"
  shows "(let b = os_path_basename (group m 2);
              same = filter (\<lambda>m'. os_path_basename (group m' 2) = b) (finditer content)
          in length same \<ge> 1
             \<and> filter (\<lambda>e. fst e = b) (stories_of content) = [(b, group (last same) 3)]
             \<and> map_of (stories_of content) b = Some (group (last same) 3))"
proof -
  let ?b = "os_path_basename (group m 2)"
  let ?same = "filter (\<lambda>m'. os_path_basename (group m' 2) = ?b) (finditer content)"
  have "m \<in> set ?same"
    using assms by simp
  then have n: "length ?same \<ge> 1"
    by (cases ?same) auto
  have l: "map_of (stories_of content) ?b = Some (group (last ?same) 3)"
    using assms
    by (auto simp: stories_of_def stories_of_fold_map fold_upd_last)
  show ?thesis
    using n l single_entry[OF stories_of_distinct l] by (simp add: Let_def)
qed

theorem stories_keyed_by_basename_witness:
  "[''story-1'', ''docs/a/story.md'', ''done''] \<in> set (finditer sample)
   \<and> os_path_basename ''docs/a/story.md'' = ''story.md''
   \<and> os_path_basename ''docs/b/story.md'' = ''story.md''
   \<and> filter (\<lambda>e. fst e = ''story.md'') (stories_of sample) = [(''story.md'', ''review'')]
   \<and> map_of (stories_of sample) ''story.md'' = Some ''review''"
proof -
  have m: "[''story-1'', ''docs/a/story.md'', ''done''] \<in> set (finditer sample)"
    by (simp add: finditer_sample)
  have b: "os_path_basename ''docs/a/story.md'' = ''story.md''"
    "os_path_basename ''docs/b/story.md'' = ''story.md''"
    by (simp_all add: os_path_basename_def)
  show ?thesis
    using stories_keyed_by_basename[OF m] m b
    by (simp add: Let_def finditer_sample group_def)
qed

subsection \<open>Paths and the target folder\<close>

lemma BASE_DIR_plain: "BASE_DIR \<noteq> []" "last BASE_DIR \<noteq> CHR ''/''"
  by (simp_all add: BASE_DIR_def)

lemma STATUS_FOLDERS_set:
  "set STATUS_FOLDERS = {''done'', ''ready-for-dev'', ''in-progress'', ''backlog'', ''drafted''}"
  by (simp add: STATUS_FOLDERS_def)

lemma target_folder_allowed: "target_folder status \<in> set STATUS_FOLDERS"
  by (simp add: target_folder_def STATUS_FOLDERS_def)

lemma folder_plain:
  assumes "t \<in> set STATUS_FOLDERS"
  shows "t \<noteq> []" "hd t \<noteq> CHR ''/''" "last t \<noteq> CHR ''/''" "CHR ''/'' \<notin> set t"
  using assms by (auto simp: STATUS_FOLDERS_def)


lemma no_slash_hd: "CHR ''/'' \<notin> set f \<Longrightarrow> \<not> (f \<noteq> [] \<and> hd f = CHR ''/'')"
  by (cases f) auto

lemma src_path_eq: "CHR ''/'' \<notin> set f \<Longrightarrow> src_path f = BASE_DIR @ ''/'' @ f"
  using no_slash_hd[of f] BASE_DIR_plain by (auto simp: src_path_def os_path_join_def)

lemma folder_path_eq: "t \<in> set STATUS_FOLDERS \<Longrightarrow> os_path_join BASE_DIR t = BASE_DIR @ ''/'' @ t"
  using folder_plain[of t] BASE_DIR_plain by (simp add: os_path_join_def)

lemma os_path_join_plain:
  assumes "a \<noteq> []" "last a \<noteq> CHR ''/''" "CHR ''/'' \<notin> set b"
  shows "os_path_join a b = a @ ''/'' @ b"
  using assms no_slash_hd[of b] by (simp add: os_path_join_def)

lemma target_path_eq:
  assumes "CHR ''/'' \<notin> set f"
  shows "target_path status f = BASE_DIR @ ''/'' @ target_folder status @ ''/'' @ f"
proof -
  let ?t = "target_folder status"
  have t: "?t \<in> set STATUS_FOLDERS"
    by (rule target_folder_allowed)
  have "BASE_DIR @ ''/'' @ ?t \<noteq> []" "last (BASE_DIR @ ''/'' @ ?t) \<noteq> CHR ''/''"
    using folder_plain(1,3)[OF t] by simp_all
  then have "os_path_join (BASE_DIR @ ''/'' @ ?t) f = (BASE_DIR @ ''/'' @ ?t) @ ''/'' @ f"
    using assms by (rule os_path_join_plain)
  then show ?thesis
    by (simp add: target_path_def folder_path_eq[OF t])
qed


lemma target_not_src:
  assumes "CHR ''/'' \<notin> set f" "CHR ''/'' \<notin> set f'"
  shows "target_path status f' \<noteq> src_path f"
proof
  assume "target_path status f' = src_path f"
  then have "target_folder status @ ''/'' @ f' = f"
    using assms by (simp add: src_path_eq target_path_eq)
  then have "f = target_folder status @ CHR ''/'' # f'"
    by simp
  then have "CHR ''/'' \<in> set f"
    by (simp only: set_append list.set) simp
  with assms(1) show False by simp
qed




lemma process_story_moved:
  assumes "disk st (src_path f) \<noteq> None" "\<not> move_fails env (src_path f) (target_path s f)"
  shows "process_story env (f, s) st =
           st\<lparr>disk := ((disk st)(target_path s f := disk st (src_path f)))(src_path f := None),
              out := out st @ [MovedTo (target_folder s) f],
              moved_count := moved_count st + 1\<rparr>"
  using assms by (auto simp: process_story_def shutil_move_def Let_def)



lemma sample_disk_lookup:
  "sample_disk YAML_PATH = Some (File sample)"
  "sample_disk (src_path ''story.md'') = Some (File ''# Story'')"
  "t \<in> set STATUS_FOLDERS \<Longrightarrow> sample_disk (os_path_join BASE_DIR t) = None"
proof -
  have s: "src_path ''story.md'' = BASE_DIR @ ''/story.md''"
    by (simp add: src_path_eq)
  have y: "YAML_PATH = BASE_DIR @ ''/sprint-status.yaml''"
    by (simp add: YAML_PATH_def BASE_DIR_def)
  show "sample_disk YAML_PATH = Some (File sample)"
    unfolding sample_disk_def s y by simp
  show "sample_disk (src_path ''story.md'') = Some (File ''# Story'')"
    unfolding sample_disk_def by simp
  show "sample_disk (os_path_join BASE_DIR t) = None" if "t \<in> set STATUS_FOLDERS"
    using that unfolding sample_disk_def s y folder_path_eq[OF that]
    by (auto simp: STATUS_FOLDERS_def)
qed

text \<open>
  C2. The status-to-folder mapping is total: for every status string the target folder is
  one of the five allow-listed folders; it is the status itself when the status is in the
  allow-list, and \<^verbatim>\<open>backlog\<close> for every other string. It is the folder the file goes to:
  a story whose file is at the root of the base directory and whose move is not refused
  ends up in that folder, and the line printed names it.
\<close>

theorem target_folder_total:
  "target_folder status \<in> set STATUS_FOLDERS
   \<and> (status \<in> set STATUS_FOLDERS \<longrightarrow> target_folder status = status)
   \<and> (status \<notin> set STATUS_FOLDERS \<longrightarrow> target_folder status = ''backlog'')
   \<and> set STATUS_FOLDERS = {''done'', ''ready-for-dev'', ''in-progress'', ''backlog'', ''drafted''}
   \<and> (CHR ''/'' \<notin> set filename \<and> disk st (src_path filename) \<noteq> None
        \<and> \<not> move_fails env (src_path filename) (target_path status filename)
      \<longrightarrow> out (process_story env (filename, status) st)
            = out st @ [MovedTo (target_folder status) filename]
          \<and> disk (process_story env (filename, status) st)
              (BASE_DIR @ ''/'' @ target_folder status @ ''/'' @ filename)
            = disk st (src_path filename))"
proof -
  have a: "target_folder status \<in> set STATUS_FOLDERS"
    by (rule target_folder_allowed)
  have b: "status \<in> set STATUS_FOLDERS \<longrightarrow> target_folder status = status"
    by (simp add: target_folder_def)
  have c: "status \<notin> set STATUS_FOLDERS \<longrightarrow> target_folder status = ''backlog''"
    by (simp add: target_folder_def)
  have d: "out (process_story env (filename, status) st)
            = out st @ [MovedTo (target_folder status) filename]
          \<and> disk (process_story env (filename, status) st)
              (BASE_DIR @ ''/'' @ target_folder status @ ''/'' @ filename)
            = disk st (src_path filename)"
    if h: "CHR ''/'' \<notin> set filename \<and> disk st (src_path filename) \<noteq> None
        \<and> \<not> move_fails env (src_path filename) (target_path status filename)"
  proof -
    have ne: "target_path status filename \<noteq> src_path filename"
      using h by (simp add: target_not_src)
    have p: "BASE_DIR @ ''/'' @ target_folder status @ ''/'' @ filename = target_path status filename"
      using h by (simp add: target_path_eq)
    show ?thesis
      unfolding p using h ne by (simp add: process_story_moved)
  qed
  show ?thesis
    using a b c d STATUS_FOLDERS_set by blast
qed

theorem target_folder_total_witness:
  "''done'' \<in> set STATUS_FOLDERS \<and> target_folder ''done'' = ''done''
   \<and> ''review'' \<notin> set STATUS_FOLDERS \<and> target_folder ''review'' = ''backlog''
   \<and> out (process_story os_quiet (''story.md'', ''review'') (org_start sample_disk [(''story.md'', ''review'')]))
       = [Parsing, Found 1, MovedTo ''backlog'' ''story.md'']
   \<and> disk (process_story os_quiet (''story.md'', ''review'') (org_start sample_disk [(''story.md'', ''review'')]))
        (BASE_DIR @ ''/backlog/story.md'') = Some (File ''# Story'')"
proof -
  let ?st = "org_start sample_disk [(''story.md'', ''review'')]"
  have a: "''done'' \<in> set STATUS_FOLDERS" and b: "''review'' \<notin> set STATUS_FOLDERS"
    by (simp_all add: STATUS_FOLDERS_def)
  have c: "CHR ''/'' \<notin> set ''story.md''"
    by simp
  have d: "disk ?st (src_path ''story.md'') = Some (File ''# Story'')"
    by (simp add: org_start_def sample_disk_lookup)
  have e: "\<not> move_fails os_quiet (src_path ''story.md'') (target_path ''review'' ''story.md'')"
    by (simp add: os_quiet_def)
  have o: "out ?st = [Parsing, Found 1]"
    by (simp add: org_start_def)
  note t1 = target_folder_total[of "''done''" "''story.md''" ?st os_quiet]
  note t2 = target_folder_total[of "''review''" "''story.md''" ?st os_quiet]
  from t1 a have f1: "target_folder ''done'' = ''done''"
    by blast
  from t2 b have f2: "target_folder ''review'' = ''backlog''"
    by blast
  have k: "CHR ''/'' \<notin> set ''story.md'' \<and> disk ?st (src_path ''story.md'') \<noteq> None
        \<and> \<not> move_fails os_quiet (src_path ''story.md'') (target_path ''review'' ''story.md'')"
    using d e by simp
  from t2 k
  have "out (process_story os_quiet (''story.md'', ''review'') ?st)
          = out ?st @ [MovedTo (target_folder ''review'') ''story.md'']
        \<and> disk (process_story os_quiet (''story.md'', ''review'') ?st)
            (BASE_DIR @ ''/'' @ target_folder ''review'' @ ''/'' @ ''story.md'')
          = disk ?st (src_path ''story.md'')"
    by blast
  then have "out (process_story os_quiet (''story.md'', ''review'') ?st)
          = [Parsing, Found 1, MovedTo ''backlog'' ''story.md'']
        \<and> disk (process_story os_quiet (''story.md'', ''review'') ?st)
            (BASE_DIR @ ''/backlog/story.md'') = Some (File ''# Story'')"
    unfolding f2 d o by simp
  then show ?thesis
    using a b f1 f2 by blast
qed

subsection \<open>The exit status\<close>

lemma makedirs_isl_stable:
  assumes "os_makedirs env d p = Inr d'"
  shows "isl (os_makedirs env d' q) = isl (os_makedirs env d q)"
  using assms
  by (auto simp: os_makedirs_def split: option.splits node.splits if_splits)

lemma make_folders_isl:
  "isl (make_folders env fl st) \<longleftrightarrow>
     (\<exists>t \<in> set fl. isl (os_makedirs env (disk st) (os_path_join BASE_DIR t)))"
proof (induction fl arbitrary: st)
  case Nil
  then show ?case by simp
next
  case (Cons t fl)
  show ?case
  proof (cases "os_makedirs env (disk st) (os_path_join BASE_DIR t)")
    case (Inl e)
    then show ?thesis by simp
  next
    case (Inr d')
    then show ?thesis
      using Cons.IH[of "st\<lparr>disk := d', out := out st @ [CreatedVerified t]\<rparr>"]
        makedirs_isl_stable[OF Inr]
      by simp
  qed
qed

text \<open>
  C3, as amended. The organizer ends with status 0 exactly when the status file is a
  regular file that can be read and each of the five status folders is a directory already
  or can be created, whatever the text of the status file and whatever the moves do.
  Otherwise the exception of \<^verbatim>\<open>open\<close> or of \<^verbatim>\<open>os.makedirs\<close> is not caught and the status
  is 1.
\<close>

theorem organizer_exit_code_cases:
  "organizer_exit_code env d =
     (if (\<exists>content. d YAML_PATH = Some (File content)) \<and> \<not> read_fails env YAML_PATH
         \<and> (\<forall>t \<in> set STATUS_FOLDERS. \<not> isl (os_makedirs env d (os_path_join BASE_DIR t)))
      then 0 else 1)"
proof (cases "parse_stories_from_yaml env d")
  case (Inl e)
  then have "\<not> ((\<exists>content. d YAML_PATH = Some (File content)) \<and> \<not> read_fails env YAML_PATH)"
    by (auto simp: parse_stories_from_yaml_def split: option.splits node.splits if_splits)
  with Inl show ?thesis
    by (auto simp: organizer_exit_code_def organize_stories_def)
next
  case (Inr stories)
  then have r: "(\<exists>content. d YAML_PATH = Some (File content)) \<and> \<not> read_fails env YAML_PATH"
    by (auto simp: parse_stories_from_yaml_def split: option.splits node.splits if_splits)
  have "organizer_exit_code env d = (if isl (make_folders env STATUS_FOLDERS (org_start d stories)) then 1 else 0)"
    using Inr by (simp add: organizer_exit_code_def organize_stories_def split: sum.splits)
  then show ?thesis
    using r by (simp add: make_folders_isl org_start_def)
qed

theorem organizer_exit_code_cases_witness:
  "organizer_exit_code os_quiet sample_disk = 0"
proof -
  have "\<not> isl (os_makedirs os_quiet sample_disk (os_path_join BASE_DIR t))"
    if "t \<in> set STATUS_FOLDERS" for t
    using sample_disk_lookup(3)[OF that] by (simp add: os_makedirs_def os_quiet_def)
  moreover have "\<not> read_fails os_quiet YAML_PATH"
    by (simp add: os_quiet_def)
  ultimately show ?thesis
    using organizer_exit_code_cases[of os_quiet sample_disk] sample_disk_lookup(1)
    by simp
qed

text \<open>
  C3 as stated (status 0 also when the status file cannot be read) fails: with no status
  file the status is 1.
\<close>

theorem organizer_exit_missing_status_file:
  "organizer_exit_code os_quiet Map.empty = 1"
  by (simp add: organizer_exit_code_def organize_stories_def parse_stories_from_yaml_def)

subsection \<open>Stories whose file is not at the root\<close>




































subsection \<open>The two counters\<close>









section \<open>Failures of single items, in both scripts\<close>












end
